theory Spec2Isabelle
  imports Main "HOL-Library.Sublist"
begin

section \<open>Python strings\<close>

text \<open>
  The program is \<^verbatim>\<open>resumeanalyzer.py\<close>. A Python \<^verbatim>\<open>str\<close> is a sequence of Unicode code
  points, so a string is a list of code points (natural numbers); \<open>length\<close> is Python's
  \<^verbatim>\<open>len\<close>. \<open>ustr\<close> reads an ASCII literal. The bullet \<^verbatim>\<open>U+2022\<close> of the source is the
  single code point 8226. \<open>x in y\<close> on strings is \<open>sublist x y\<close>, and
  \<open>y.startswith(x)\<close> is \<open>prefix x y\<close>.
\<close>

type_synonym pystr = "nat list"

definition ustr :: "string \<Rightarrow> pystr" where
  "ustr s = map of_char s"

abbreviation NL :: nat where "NL \<equiv> 10"
abbreviation SP :: nat where "SP \<equiv> 32"
abbreviation COLON :: nat where "COLON \<equiv> 58"
abbreviation BULLET :: nat where "BULLET \<equiv> 8226"
abbreviation TAB :: nat where "TAB \<equiv> 9"

text \<open>
  The characters Python counts as whitespace in \<^verbatim>\<open>str.strip()\<close>, \<^verbatim>\<open>str.split()\<close> and, for a
  \<^verbatim>\<open>str\<close> pattern, the regular-expression class \<^verbatim>\<open>\s\<close>: CPython's
  \<^verbatim>\<open>_PyUnicode_IsWhitespace\<close> table (tab to carriage return, the four separators
  \<^verbatim>\<open>0x1C\<close> to \<^verbatim>\<open>0x1F\<close>, space, \<^verbatim>\<open>0x85\<close>, \<^verbatim>\<open>0xA0\<close>, \<^verbatim>\<open>0x1680\<close>, \<^verbatim>\<open>0x2000\<close> to
  \<^verbatim>\<open>0x200A\<close>, \<^verbatim>\<open>0x2028\<close>, \<^verbatim>\<open>0x2029\<close>, \<^verbatim>\<open>0x202F\<close>, \<^verbatim>\<open>0x205F\<close>, \<^verbatim>\<open>0x3000\<close>).
\<close>

definition is_space :: "nat \<Rightarrow> bool" where
  "is_space c = ((9 \<le> c \<and> c \<le> 13) \<or> (28 \<le> c \<and> c \<le> 32) \<or> c = 133 \<or> c = 160
     \<or> c = 5760 \<or> (8192 \<le> c \<and> c \<le> 8202) \<or> c = 8232 \<or> c = 8233 \<or> c = 8239
     \<or> c = 8287 \<or> c = 12288)"

text \<open>\<^verbatim>\<open>s.strip()\<close>: leading and trailing whitespace removed.\<close>

definition strip :: "pystr \<Rightarrow> pystr" where
  "strip s = rev (dropWhile is_space (rev (dropWhile is_space s)))"

text \<open>
  The parts of the Unicode character database that the program reaches through the
  standard library and that are not written out here: the lower-casing of a string that
  has a code point outside ASCII (it is not character-wise: a capital sigma lowers
  according to its position in the word, and \<^verbatim>\<open>U+0130\<close> lowers to two code points), and
  the decimal digits outside ASCII (category Nd, which the class \<^verbatim>\<open>\d\<close> matches). Every
  function that depends on them takes the database as its first argument, and every
  theorem holds for all databases.
\<close>

record unicode_db =
  uni_lower :: "pystr \<Rightarrow> pystr"
  uni_decimal :: "nat \<Rightarrow> bool"

definition ascii_lower :: "nat \<Rightarrow> nat" where
  "ascii_lower c = (if 65 \<le> c \<and> c \<le> 90 then c + 32 else c)"

text \<open>\<^verbatim>\<open>s.lower()\<close>: CPython lowers an ASCII string byte by byte and any other
  string through the database.\<close>

definition lower :: "unicode_db \<Rightarrow> pystr \<Rightarrow> pystr" where
  "lower U s = (if list_all (\<lambda>c. c < 128) s then map ascii_lower s else uni_lower U s)"

text \<open>The class \<^verbatim>\<open>\d\<close> of a \<^verbatim>\<open>str\<close> pattern: a Unicode decimal digit.\<close>

definition is_digit :: "unicode_db \<Rightarrow> nat \<Rightarrow> bool" where
  "is_digit U c = ((48 \<le> c \<and> c \<le> 57) \<or> (128 \<le> c \<and> uni_decimal U c))"

text \<open>\<^verbatim>\<open>s.split(sep)\<close> for a one-character separator: never an empty list, and one
  more field than there are separators.\<close>

fun split_on :: "nat \<Rightarrow> pystr \<Rightarrow> pystr list" where
  "split_on sep [] = [[]]"
| "split_on sep (c # cs) =
     (if c = sep then [] # split_on sep cs
      else (case split_on sep cs of
              [] \<Rightarrow> [[c]]
            | l # ls \<Rightarrow> (c # l) # ls))"

text \<open>\<^verbatim>\<open>s.split()\<close>: the maximal runs of non-whitespace characters.\<close>

function split_ws :: "pystr \<Rightarrow> pystr list" where
  "split_ws s =
     (case dropWhile is_space s of
        [] \<Rightarrow> []
      | w # ws \<Rightarrow> takeWhile (\<lambda>c. \<not> is_space c) (w # ws)
                 # split_ws (dropWhile (\<lambda>c. \<not> is_space c) ws))"
  by pat_completeness auto
termination
proof (relation "measure length")
  show "wf (measure length)" by simp
next
  fix s :: pystr and w ws
  assume a: "dropWhile is_space s = w # ws"
  have "length (dropWhile (\<lambda>c. \<not> is_space c) ws) \<le> length ws"
    by (rule length_dropWhile_le)
  moreover have "length (w # ws) \<le> length s"
    using length_dropWhile_le [of is_space s] a by simp
  ultimately show "(dropWhile (\<lambda>c. \<not> is_space c) ws, s) \<in> measure length"
    by simp
qed

section \<open>The text normalizer\<close>

text \<open>
  \<^verbatim>\<open>re.sub(r'\n\s*\n', '\n\n', text)\<close>. At a newline followed by \<open>cs\<close>, the greedy
  \<^verbatim>\<open>\s*\<close> first takes the whole whitespace run that starts \<open>cs\<close> and then gives back one
  character at a time until the character after it is a newline, so the match ends at the
  last newline of that run. \<open>blank_gap cs\<close> is the number of characters of \<open>cs\<close> in the
  match, 0 when the run has no newline (no match at this newline). The scan goes on after
  the match; a character where no match starts is copied.
\<close>

definition blank_gap :: "pystr \<Rightarrow> nat" where
  "blank_gap cs = length (dropWhile (\<lambda>c. c \<noteq> NL) (rev (takeWhile is_space cs)))"

fun sub_blank_lines :: "pystr \<Rightarrow> pystr" where
  "sub_blank_lines [] = []"
| "sub_blank_lines (c # cs) =
     (if c = NL \<and> 0 < blank_gap cs
      then NL # NL # sub_blank_lines (drop (blank_gap cs) cs)
      else c # sub_blank_lines cs)"

text \<open>\<^verbatim>\<open>re.sub(r' +', ' ', text)\<close>: every maximal run of the space character becomes one
  space.\<close>

function sub_spaces :: "pystr \<Rightarrow> pystr" where
  "sub_spaces [] = []"
| "sub_spaces (c # cs) =
     (if c = SP then SP # sub_spaces (dropWhile (\<lambda>d. d = SP) cs)
      else c # sub_spaces cs)"
  by pat_completeness auto
termination
proof (relation "measure length")
  show "wf (measure length)" by simp
next
  fix c :: nat and cs :: pystr
  show "(dropWhile (\<lambda>d. d = SP) cs, c # cs) \<in> measure length"
    using length_dropWhile_le [of "\<lambda>d. d = SP" cs] by simp
next
  fix c :: nat and cs :: pystr
  show "(cs, c # cs) \<in> measure length" by simp
qed

definition clean_text :: "pystr \<Rightarrow> pystr" where
  "clean_text text = strip (sub_spaces (sub_blank_lines text))"

text \<open>
  The texts in which the first pattern matches nothing but two adjacent newlines: after
  every newline, the whitespace run that follows has no newline past its first
  character. They are the texts the first substitution leaves as they are.
\<close>

fun settled :: "pystr \<Rightarrow> bool" where
  "settled [] = True"
| "settled (c # cs) = ((c \<noteq> NL \<or> blank_gap cs \<le> 1) \<and> settled cs)"

section \<open>The prompt builder\<close>

definition analysis_prompt_head :: pystr where
  "analysis_prompt_head = ustr (''\<newline>You are a professional resume analyst and career coach. ''
     @ ''Analyze the following resume comprehensively:\<newline>\<newline>RESUME TEXT:\<newline>'')"

definition analysis_prompt_tail :: pystr where
  "analysis_prompt_tail = ustr (''\<newline>\<newline>ANALYSIS REQUIREMENTS:\<newline>''
     @ ''1. Overall Score (0-100) with justification\<newline>''
     @ ''2. Strengths (what works well)\<newline>''
     @ ''3. Weaknesses (specific areas needing improvement)\<newline>''
     @ ''4. ATS Compatibility assessment\<newline>''
     @ ''5. Industry-specific recommendations\<newline>''
     @ ''6. Missing Information Needed (list specific questions to ask the candidate)\<newline>''
     @ ''\<newline>Format your response clearly with headers for each section.\<newline>'')"

text \<open>The f-string of \<^verbatim>\<open>build_analysis_prompt\<close>: the fixed text with \<^verbatim>\<open>{resume_text}\<close>
  replaced by the argument.\<close>

definition build_analysis_prompt :: "pystr \<Rightarrow> pystr" where
  "build_analysis_prompt resume_text =
     analysis_prompt_head @ resume_text @ analysis_prompt_tail"

section \<open>The question extractor\<close>

definition question_indicators :: "pystr list" where
  "question_indicators =
     [ustr ''missing information'', ustr ''information needed'', ustr ''questions'',
      ustr ''additional details'', ustr ''clarification needed'']"

text \<open>The tuple given to \<^verbatim>\<open>line.startswith\<close>.\<close>

definition list_prefixes :: "pystr list" where
  "list_prefixes =
     [ustr '' '', ustr ''-'', [BULLET], ustr ''1'', ustr ''2'', ustr ''3'', ustr ''4'',
      ustr ''5'']"

definition fallback_questions :: "pystr list" where
  "fallback_questions =
     [ustr ''What specific achievements or metrics can you provide?'',
      ustr ''Are there any additional skills or certifications to highlight?'',
      ustr ''What is your target job role or industry?'',
      ustr ''Any additional experiences or projects to include?'']"

text \<open>\<^verbatim>\<open>any(indicator in line_lower for indicator in question_indicators)\<close> with
  \<^verbatim>\<open>line_lower = line.lower().strip()\<close>.\<close>

definition is_trigger :: "unicode_db \<Rightarrow> pystr \<Rightarrow> bool" where
  "is_trigger U line =
     list_ex (\<lambda>indicator. sublist indicator (strip (lower U line))) question_indicators"

text \<open>\<^verbatim>\<open>line.split(':')[0]\<close>; the list that \<open>split_on\<close> returns is never empty.\<close>

definition first_field :: "pystr \<Rightarrow> pystr" where
  "first_field line = (case split_on COLON line of [] \<Rightarrow> [] | f # _ \<Rightarrow> f)"

text \<open>The test that ends the question section, without its guard
  \<^verbatim>\<open>in_question_section\<close>: the line is not blank, does not start with one of the list
  prefixes, has a colon, and fewer than four words stand before the first colon.\<close>

definition is_section_exit :: "pystr \<Rightarrow> bool" where
  "is_section_exit line =
     (strip line \<noteq> [] \<and> \<not> list_ex (\<lambda>p. prefix p line) list_prefixes
      \<and> sublist [COLON] line \<and> length (split_ws (first_field line)) < 4)"

text \<open>The character class \<^verbatim>\<open>[-\<bullet>\d\.\s]\<close> of the pattern that strips the numbering,
  where \<^verbatim>\<open>\<bullet>\<close> stands for the bullet \<^verbatim>\<open>U+2022\<close>.\<close>

definition bullet_char :: "unicode_db \<Rightarrow> nat \<Rightarrow> bool" where
  "bullet_char U c = (c = 45 \<or> c = BULLET \<or> is_digit U c \<or> c = 46 \<or> is_space c)"

text \<open>\<^verbatim>\<open>re.sub(r'^[-\<bullet>\d\.\s]+', '', line).strip()\<close>: the pattern is anchored at the start
  of the line, so it removes the longest prefix made of characters of the class.\<close>

definition clean_question :: "unicode_db \<Rightarrow> pystr \<Rightarrow> pystr" where
  "clean_question U line = strip (dropWhile (bullet_char U) line)"

text \<open>One pass of the loop body on a line: the state is the flag
  \<^verbatim>\<open>in_question_section\<close> and the list \<^verbatim>\<open>questions\<close>.\<close>

definition scan_line :: "unicode_db \<Rightarrow> bool \<times> pystr list \<Rightarrow> pystr \<Rightarrow> bool \<times> pystr list" where
  "scan_line U st line =
     (case st of (in_question_section, questions) \<Rightarrow>
        if is_trigger U line then (True, questions)
        else
          let in_section = (if in_question_section \<and> is_section_exit line then False
                            else in_question_section)
          in if in_section \<and> strip line \<noteq> []
             then (let question = clean_question U line
                   in if question \<noteq> [] \<and> 10 < length question
                      then (in_section, questions @ [question])
                      else (in_section, questions))
             else (in_section, questions))"

text \<open>The list \<^verbatim>\<open>questions\<close> when the loop over \<^verbatim>\<open>analysis_text.split('\n')\<close> ends.\<close>

definition collect_questions :: "unicode_db \<Rightarrow> pystr \<Rightarrow> pystr list" where
  "collect_questions U analysis_text =
     snd (foldl (scan_line U) (False, []) (split_on NL analysis_text))"

definition extract_questions_from_analysis :: "unicode_db \<Rightarrow> pystr \<Rightarrow> pystr list" where
  "extract_questions_from_analysis U analysis_text =
     (let questions = collect_questions U analysis_text
      in take 6 (if questions = [] then fallback_questions else questions))"

section \<open>The document emitters\<close>

text \<open>
  The writer libraries are outside the program: a writer takes what the program hands it
  and either returns the bytes of the document or raises. An exception is a value of
  type \<open>py_error\<close>; \<open>Inl\<close> is an exception that leaves the function.
\<close>

datatype py_error = PyException string

type_synonym bytes = "nat list"

text \<open>\<^verbatim>\<open>create_docx_from_text\<close>: one paragraph per line, an empty one for a blank line,
  then \<^verbatim>\<open>doc.save\<close>. The function has no \<^verbatim>\<open>try\<close>.\<close>

definition docx_paragraphs :: "pystr \<Rightarrow> pystr list" where
  "docx_paragraphs resume_text =
     map (\<lambda>line. if strip line = [] then [] else line) (split_on NL resume_text)"

definition create_docx_from_text :: "(pystr list \<Rightarrow> py_error + bytes) \<Rightarrow> pystr \<Rightarrow> py_error + bytes" where
  "create_docx_from_text save resume_text = save (docx_paragraphs resume_text)"

text \<open>\<^verbatim>\<open>create_pdf_from_text\<close>: the whole body, from the creation of the \<^verbatim>\<open>FPDF\<close> object to
  \<^verbatim>\<open>pdf.output\<close>, stands in one \<^verbatim>\<open>try\<close> whose handler returns \<^verbatim>\<open>b""\<close>. The writer is
  given the stripped lines.\<close>

definition pdf_lines :: "pystr \<Rightarrow> pystr list" where
  "pdf_lines resume_text = map strip (split_on NL resume_text)"

definition create_pdf_from_text :: "(pystr list \<Rightarrow> py_error + bytes) \<Rightarrow> pystr \<Rightarrow> py_error + bytes" where
  "create_pdf_from_text render resume_text =
     (case render (pdf_lines resume_text) of
        Inl e \<Rightarrow> Inr []
      | Inr pdf_bytes \<Rightarrow> Inr pdf_bytes)"

section \<open>Inputs for the closed statements\<close>

text \<open>A database with nothing outside ASCII: it instantiates the database in statements
  about concrete ASCII texts, where the program never consults it.\<close>

definition plain_db :: unicode_db where
  "plain_db = \<lparr>uni_lower = (\<lambda>s. s), uni_decimal = (\<lambda>c. False)\<rparr>"

text \<open>The analysis text of the end-to-end scenario: five lines joined by newlines.\<close>

definition scenario_text :: pystr where
  "scenario_text = ustr (''Missing Information Needed:\<newline>''
     @ ''1. What was your role at Company X?\<newline>''
     @ ''2. Can you quantify your sales results?\<newline>''
     @ ''Industry Recommendations:\<newline>''
     @ ''Consider emphasizing leadership.'')"

text \<open>An analysis text with a header and seven list items.\<close>

definition seven_items_text :: pystr where
  "seven_items_text = ustr (''Questions\<newline>''
     @ ''- please describe item A\<newline>- please describe item B\<newline>''
     @ ''- please describe item C\<newline>- please describe item D\<newline>''
     @ ''- please describe item E\<newline>- please describe item F\<newline>''
     @ ''- please describe item G'')"

text \<open>An analysis text without any trigger phrase.\<close>

definition no_header_text :: pystr where
  "no_header_text = ustr ''Strengths: clear layout\<newline>Weaknesses: none found''"

section \<open>The question extractor: properties\<close>

lemmas line_defs = scan_line_def is_trigger_def lower_def ustr_def ascii_lower_def strip_def
  is_space_def question_indicators_def sublist_Cons_right is_section_exit_def list_prefixes_def
  clean_question_def bullet_char_def is_digit_def first_field_def

lemma scenario_lines:
  "split_on NL scenario_text =
     [ustr ''Missing Information Needed:'', ustr ''1. What was your role at Company X?'',
      ustr ''2. Can you quantify your sales results?'', ustr ''Industry Recommendations:'',
      ustr ''Consider emphasizing leadership.'']"
  by (simp add: scenario_text_def ustr_def)

lemma scenario_lines_newline:
  "split_on NL (scenario_text @ [NL]) =
     [ustr ''Missing Information Needed:'', ustr ''1. What was your role at Company X?'',
      ustr ''2. Can you quantify your sales results?'', ustr ''Industry Recommendations:'',
      ustr ''Consider emphasizing leadership.'', []]"
  by (simp add: scenario_text_def ustr_def)

lemma scenario_header:
  "scan_line U (False, []) (ustr ''Missing Information Needed:'') = (True, [])"
  by (simp add: line_defs)

lemma scenario_first:
  "scan_line U (True, qs) (ustr ''1. What was your role at Company X?'')
     = (True, qs @ [ustr ''What was your role at Company X?''])"
  by (simp add: line_defs)

lemma scenario_second:
  "scan_line U (True, qs) (ustr ''2. Can you quantify your sales results?'')
     = (True, qs @ [ustr ''Can you quantify your sales results?''])"
  by (simp add: line_defs)

lemma scenario_next_section:
  "scan_line U (True, qs) (ustr ''Industry Recommendations:'') = (False, qs)"
  by (simp add: line_defs)

lemma scenario_outside:
  "scan_line U (False, qs) (ustr ''Consider emphasizing leadership.'') = (False, qs)"
  by (simp add: line_defs)

lemma scenario_empty_line: "scan_line U (False, qs) [] = (False, qs)"
  by (simp add: line_defs)

lemmas scenario_steps = scenario_header scenario_first scenario_second scenario_next_section
  scenario_outside scenario_empty_line

text \<open>
  C1. On the five-line analysis text of the end-to-end scenario (the header
  ``Missing Information Needed:'', two numbered questions, the header
  ``Industry Recommendations:'' and one more sentence), the extractor returns exactly the
  two questions, in order and without their numbering. The result is the same when the
  text ends with a newline.
\<close>

theorem scenario_questions:
  "extract_questions_from_analysis U scenario_text
     = [ustr ''What was your role at Company X?'',
        ustr ''Can you quantify your sales results?'']
   \<and> extract_questions_from_analysis U (scenario_text @ [NL])
     = [ustr ''What was your role at Company X?'',
        ustr ''Can you quantify your sales results?'']"
proof -
  have a: "collect_questions U scenario_text
     = [ustr ''What was your role at Company X?'',
        ustr ''Can you quantify your sales results?'']"
    unfolding collect_questions_def scenario_lines by (simp add: scenario_steps)
  have b: "collect_questions U (scenario_text @ [NL])
     = [ustr ''What was your role at Company X?'',
        ustr ''Can you quantify your sales results?'']"
    unfolding collect_questions_def scenario_lines_newline by (simp add: scenario_steps)
  show ?thesis
    unfolding extract_questions_from_analysis_def a b by simp
qed

lemma foldl_no_trigger:
  "\<forall>line\<in>set ls. \<not> is_trigger U line \<Longrightarrow> foldl (scan_line U) (False, qs) ls = (False, qs)"
  by (induction ls) (simp_all add: scan_line_def)

text \<open>
  C6. When no line of the analysis text, lower-cased and stripped, contains one of the
  five trigger phrases, the extractor returns the four fallback questions, verbatim and in
  order.
\<close>

theorem no_trigger_gives_fallback:
  "\<forall>line\<in>set (split_on NL text). \<not> is_trigger U line \<Longrightarrow>
   extract_questions_from_analysis U text
     = [ustr ''What specific achievements or metrics can you provide?'',
        ustr ''Are there any additional skills or certifications to highlight?'',
        ustr ''What is your target job role or industry?'',
        ustr ''Any additional experiences or projects to include?'']"
  by (simp add: extract_questions_from_analysis_def collect_questions_def foldl_no_trigger
      fallback_questions_def)

theorem no_trigger_gives_fallback_witness:
  "list_all (\<lambda>line. \<not> is_trigger plain_db line) (split_on NL no_header_text)
   \<and> extract_questions_from_analysis plain_db no_header_text
     = [ustr ''What specific achievements or metrics can you provide?'',
        ustr ''Are there any additional skills or certifications to highlight?'',
        ustr ''What is your target job role or industry?'',
        ustr ''Any additional experiences or projects to include?'']"
proof -
  have l: "split_on NL no_header_text
     = [ustr ''Strengths: clear layout'', ustr ''Weaknesses: none found'']"
    by (simp add: no_header_text_def ustr_def)
  have h: "list_all (\<lambda>line. \<not> is_trigger plain_db line) (split_on NL no_header_text)"
    unfolding l by (simp add: line_defs)
  then have "\<forall>line\<in>set (split_on NL no_header_text). \<not> is_trigger plain_db line"
    by (simp add: list_all_iff)
  from no_trigger_gives_fallback [OF this] h show ?thesis by simp
qed

text \<open>
  C7. The trigger check comes first in the loop body: on a line whose lower-cased,
  stripped form contains a trigger phrase, whatever the state before it (inside the
  section, or outside it after an exit), the state after the line is inside the section
  and the list of questions is unchanged; neither the exit test nor the extraction is
  applied to that line.
\<close>

theorem trigger_line_enters_section:
  "is_trigger U line \<Longrightarrow> scan_line U (in_question_section, questions) line = (True, questions)"
  by (simp add: scan_line_def)

theorem trigger_line_enters_section_witness:
  "is_trigger plain_db (ustr ''Missing Information Needed:'')
   \<and> is_section_exit (ustr ''Missing Information Needed:'')
   \<and> scan_line plain_db (True, [ustr ''An earlier question'']) (ustr ''Missing Information Needed:'')
       = (True, [ustr ''An earlier question''])
   \<and> scan_line plain_db (False, []) (ustr ''Missing Information Needed:'') = (True, [])"
proof -
  have t: "is_trigger plain_db (ustr ''Missing Information Needed:'')"
    by (simp add: line_defs)
  have e: "is_section_exit (ustr ''Missing Information Needed:'')"
    by (simp add: line_defs)
  show ?thesis
    using t e trigger_line_enters_section [OF t, of True]
      trigger_line_enters_section [OF t, of False] by simp
qed

lemma scan_line_cases:
  "\<exists>b'. scan_line U (b, qs) line = (b', qs)
      \<or> scan_line U (b, qs) line = (b', qs @ [clean_question U line])"
  by (auto simp add: scan_line_def Let_def)

lemma foldl_scan_subseq:
  "\<exists>qs'. snd (foldl (scan_line U) (b, qs) ls) = qs @ qs'
     \<and> subseq qs' (map (clean_question U) ls)"
proof (induction ls arbitrary: b qs)
  case Nil
  then show ?case by simp
next
  case (Cons l ls)
  from scan_line_cases [of U b qs l] obtain b' where
    "scan_line U (b, qs) l = (b', qs) \<or> scan_line U (b, qs) l = (b', qs @ [clean_question U l])"
    by blast
  then show ?case
  proof
    assume s: "scan_line U (b, qs) l = (b', qs)"
    from Cons.IH [of b' qs] obtain qs' where
      "snd (foldl (scan_line U) (b', qs) ls) = qs @ qs'" "subseq qs' (map (clean_question U) ls)"
      by blast
    then show ?thesis using s by (auto intro: subseq_Cons')
  next
    assume s: "scan_line U (b, qs) l = (b', qs @ [clean_question U l])"
    from Cons.IH [of b' "qs @ [clean_question U l]"] obtain qs' where
      "snd (foldl (scan_line U) (b', qs @ [clean_question U l]) ls) = (qs @ [clean_question U l]) @ qs'"
      "subseq qs' (map (clean_question U) ls)"
      by blast
    then show ?thesis using s by auto
  qed
qed

lemma collect_questions_subseq:
  "subseq (collect_questions U text) (map (clean_question U) (split_on NL text))"
  using foldl_scan_subseq [of U False "[]" "split_on NL text"]
  by (auto simp add: collect_questions_def)

text \<open>
  C8. The extractor never returns more than six entries, and when the loop has collected
  more than six questions the result is the first six of them, in the order in which the
  loop collected them. That order is the order of the lines: the collected questions are,
  in order, the cleaned forms of some of the lines of the text.
\<close>

theorem at_most_six_questions:
  "length (extract_questions_from_analysis U text) \<le> 6
   \<and> (6 < length (collect_questions U text) \<longrightarrow>
        extract_questions_from_analysis U text = take 6 (collect_questions U text))
   \<and> subseq (collect_questions U text) (map (clean_question U) (split_on NL text))"
  by (auto simp add: extract_questions_from_analysis_def Let_def collect_questions_subseq)

lemma seven_items_collected:
  "collect_questions plain_db seven_items_text
     = [ustr ''please describe item A'', ustr ''please describe item B'',
        ustr ''please describe item C'', ustr ''please describe item D'',
        ustr ''please describe item E'', ustr ''please describe item F'',
        ustr ''please describe item G'']"
proof -
  have l: "split_on NL seven_items_text
     = [ustr ''Questions'', ustr ''- please describe item A'', ustr ''- please describe item B'',
        ustr ''- please describe item C'', ustr ''- please describe item D'',
        ustr ''- please describe item E'', ustr ''- please describe item F'',
        ustr ''- please describe item G'']"
    by (simp add: seven_items_text_def ustr_def)
  have h: "scan_line plain_db (False, []) (ustr ''Questions'') = (True, [])"
    by (simp add: line_defs)
  have i: "scan_line plain_db (True, qs) (ustr ''- please describe item '' @ [c])
     = (True, qs @ [ustr ''please describe item '' @ [c]])"
    if "65 \<le> c" "c \<le> 71" for qs c
    using that by (simp add: line_defs)
  have i': "scan_line plain_db (True, qs) (ustr (''- please describe item '' @ [x]))
     = (True, qs @ [ustr (''please describe item '' @ [x])])"
    if "65 \<le> (of_char x :: nat)" "(of_char x :: nat) \<le> 71" for qs x
    using i [OF that, of qs] by (simp add: ustr_def)
  show ?thesis
    unfolding collect_questions_def l using h by (simp add: i' [simplified])
qed

theorem at_most_six_questions_witness:
  "length (extract_questions_from_analysis plain_db seven_items_text) \<le> 6
   \<and> 6 < length (collect_questions plain_db seven_items_text)
   \<and> extract_questions_from_analysis plain_db seven_items_text
     = [ustr ''please describe item A'', ustr ''please describe item B'',
        ustr ''please describe item C'', ustr ''please describe item D'',
        ustr ''please describe item E'', ustr ''please describe item F'']"
  using at_most_six_questions [of plain_db seven_items_text]
  by (simp add: seven_items_collected)

text \<open>
  C10. The extractor never returns an empty list: when the loop collects nothing the
  four fallback questions stand in, so the result has between one and six entries.
\<close>

theorem questions_never_empty:
  "extract_questions_from_analysis U text \<noteq> []
   \<and> 1 \<le> length (extract_questions_from_analysis U text)
   \<and> length (extract_questions_from_analysis U text) \<le> 6"
  by (auto simp add: extract_questions_from_analysis_def Let_def fallback_questions_def
      Suc_le_eq)

section \<open>The prompt builder: properties\<close>

lemma sublist_of_prompt_tail:
  "sublist label analysis_prompt_tail \<Longrightarrow> sublist label (build_analysis_prompt resume_text)"
proof -
  assume "sublist label analysis_prompt_tail"
  moreover have "sublist analysis_prompt_tail (build_analysis_prompt resume_text)"
    unfolding build_analysis_prompt_def
    using sublist_appendI [of analysis_prompt_tail "analysis_prompt_head @ resume_text" "[]"]
    by simp
  ultimately show ?thesis by (rule sublist_order.order_trans)
qed

lemma label_overall_score: "sublist (ustr ''Overall Score'') analysis_prompt_tail"
  by (simp add: analysis_prompt_tail_def ustr_def sublist_Cons_right)

lemma label_strengths: "sublist (ustr ''Strengths'') analysis_prompt_tail"
  by (simp add: analysis_prompt_tail_def ustr_def sublist_Cons_right)

lemma label_weaknesses: "sublist (ustr ''Weaknesses'') analysis_prompt_tail"
  by (simp add: analysis_prompt_tail_def ustr_def sublist_Cons_right)

lemma label_ats: "sublist (ustr ''ATS Compatibility'') analysis_prompt_tail"
  by (simp add: analysis_prompt_tail_def ustr_def sublist_Cons_right)

lemma label_industry:
  "sublist (ustr ''Industry-specific recommendations'') analysis_prompt_tail"
  by (simp add: analysis_prompt_tail_def ustr_def sublist_Cons_right)

lemma label_missing: "sublist (ustr ''Missing Information Needed'') analysis_prompt_tail"
  by (simp add: analysis_prompt_tail_def ustr_def sublist_Cons_right)

text \<open>
  C9. For every resume text, the empty one included, the analysis prompt contains the
  text verbatim and contains the six instruction labels: Overall Score, Strengths,
  Weaknesses, ATS Compatibility, Industry-specific recommendations and Missing
  Information Needed. The function is total and depends on its argument only: the prompt
  is the fixed head, the text and the fixed tail.
\<close>

theorem analysis_prompt_contents:
  "build_analysis_prompt resume_text = analysis_prompt_head @ resume_text @ analysis_prompt_tail
   \<and> sublist resume_text (build_analysis_prompt resume_text)
   \<and> sublist (ustr ''Overall Score'') (build_analysis_prompt resume_text)
   \<and> sublist (ustr ''Strengths'') (build_analysis_prompt resume_text)
   \<and> sublist (ustr ''Weaknesses'') (build_analysis_prompt resume_text)
   \<and> sublist (ustr ''ATS Compatibility'') (build_analysis_prompt resume_text)
   \<and> sublist (ustr ''Industry-specific recommendations'') (build_analysis_prompt resume_text)
   \<and> sublist (ustr ''Missing Information Needed'') (build_analysis_prompt resume_text)"
proof -
  have "sublist resume_text (build_analysis_prompt resume_text)"
    unfolding build_analysis_prompt_def by (rule sublist_appendI)
  then show ?thesis
    using label_overall_score label_strengths label_weaknesses label_ats label_industry
      label_missing
    by (simp add: sublist_of_prompt_tail build_analysis_prompt_def [symmetric])
qed

section \<open>The document emitters: what a failing writer gives\<close>

text \<open>
  C3. A writer that raises: \<^verbatim>\<open>create_pdf_from_text\<close> catches the exception and returns the
  empty byte string, while \<^verbatim>\<open>create_docx_from_text\<close>, which has no handler, lets the
  exception leave the function and returns nothing.
\<close>

theorem docx_save_error_propagates:
  "create_docx_from_text (\<lambda>paragraphs. Inl (PyException ''OSError'')) (ustr ''Jane Doe'')
     = Inl (PyException ''OSError'')
   \<and> create_docx_from_text (\<lambda>paragraphs. Inl (PyException ''OSError'')) (ustr ''Jane Doe'')
     \<noteq> Inr []
   \<and> create_pdf_from_text (\<lambda>lines. Inl (PyException ''OSError'')) (ustr ''Jane Doe'')
     = Inr []"
  by (simp add: create_docx_from_text_def create_pdf_from_text_def)

section \<open>The text normalizer: properties\<close>

lemma is_space_NL [simp]: "is_space NL" by (simp add: is_space_def)
lemma is_space_SP [simp]: "is_space SP" by (simp add: is_space_def)

lemma blank_gap_0_iff: "blank_gap cs = 0 \<longleftrightarrow> NL \<notin> set (takeWhile is_space cs)"
  by (auto simp add: blank_gap_def dropWhile_eq_Nil_conv)

lemma last_nl_index:
  "length (dropWhile (\<lambda>c. c \<noteq> NL) (rev l)) \<le> 1 \<longleftrightarrow> NL \<notin> set (tl l)"
proof (induction l rule: rev_induct)
  case Nil
  then show ?case by simp
next
  case (snoc x xs)
  then show ?case
    by (cases xs) (auto simp add: dropWhile_eq_Nil_conv)
qed

lemma blank_gap_le_1_iff: "blank_gap cs \<le> 1 \<longleftrightarrow> NL \<notin> set (tl (takeWhile is_space cs))"
  unfolding blank_gap_def by (rule last_nl_index)

lemma takeWhile_dropWhile_same [simp]: "takeWhile P (dropWhile P xs) = []"
  by (induction xs) auto

lemma gap_split:
  assumes "0 < blank_gap cs"
  shows "\<exists>a b. takeWhile is_space cs = a @ NL # b \<and> NL \<notin> set b \<and> blank_gap cs = Suc (length a)"
proof -
  from assms have "NL \<in> set (takeWhile is_space cs)"
    using blank_gap_0_iff [of cs] by auto
  then obtain a b where ab: "takeWhile is_space cs = a @ NL # b" "NL \<notin> set b"
    by (auto dest: split_list_last)
  have "dropWhile (\<lambda>c. c \<noteq> NL) (rev b @ NL # rev a) = NL # rev a"
    using ab(2) by (simp add: dropWhile_append)
  then have "blank_gap cs = Suc (length a)"
    by (simp add: blank_gap_def ab(1))
  with ab show ?thesis by blast
qed

lemma drop_gap_parts:
  assumes "0 < blank_gap cs"
  shows "\<exists>a b. cs = a @ NL # b @ dropWhile is_space cs \<and> NL \<notin> set b
    \<and> list_all is_space a \<and> list_all is_space b \<and> blank_gap cs = Suc (length a)"
proof -
  from gap_split [OF assms] obtain a b where
    ab: "takeWhile is_space cs = a @ NL # b" "NL \<notin> set b" "blank_gap cs = Suc (length a)"
    by blast
  have "cs = takeWhile is_space cs @ dropWhile is_space cs" by simp
  then have 1: "cs = a @ NL # b @ dropWhile is_space cs" using ab(1) by simp
  have "\<forall>x\<in>set (takeWhile is_space cs). is_space x"
    by (auto dest: set_takeWhileD)
  then have "list_all is_space a" "list_all is_space b"
    unfolding ab(1) by (auto simp add: list_all_iff)
  with 1 ab show ?thesis by blast
qed

lemma drop_gap_lead:
  assumes "0 < blank_gap cs"
  shows "NL \<notin> set (takeWhile is_space (drop (blank_gap cs) cs))"
proof -
  from drop_gap_parts [OF assms] obtain a b where
    ab: "cs = a @ NL # b @ dropWhile is_space cs" "NL \<notin> set b" "list_all is_space b"
      "blank_gap cs = Suc (length a)"
    by blast
  have "drop (blank_gap cs) cs = drop (Suc (length a)) (a @ NL # b @ dropWhile is_space cs)"
    using ab(1) ab(4) by simp
  then have "drop (blank_gap cs) cs = b @ dropWhile is_space cs" by simp
  moreover have "takeWhile is_space (b @ dropWhile is_space cs) = b"
    using ab(3) by (simp add: takeWhile_append2 list_all_iff)
  ultimately show ?thesis using ab(2) by simp
qed

lemma lead_sub_blank_lines:
  "NL \<notin> set (takeWhile is_space z) \<Longrightarrow>
   takeWhile is_space (sub_blank_lines z) = takeWhile is_space z"
  by (induction z) (auto split: if_splits)

lemma blank_gap_Cons_NL:
  "NL \<notin> set (takeWhile is_space R) \<Longrightarrow> blank_gap (NL # R) = 1"
  by (simp add: blank_gap_def dropWhile_append dropWhile_eq_Nil_conv)


lemma settled_sub_blank_lines: "settled (sub_blank_lines x)"
proof (induction x rule: sub_blank_lines.induct)
  case 1
  then show ?case by simp
next
  case (2 c cs)
  show ?case
  proof (cases "c = NL \<and> 0 < blank_gap cs")
    case True
    let ?R = "sub_blank_lines (drop (blank_gap cs) cs)"
    have l: "NL \<notin> set (takeWhile is_space ?R)"
      using drop_gap_lead [of cs] True by (simp add: lead_sub_blank_lines)
    then have "blank_gap ?R = 0" "blank_gap (NL # ?R) = 1"
      by (simp_all add: blank_gap_0_iff blank_gap_Cons_NL)
    then show ?thesis using True 2 by simp
  next
    case False
    show ?thesis
    proof (cases "c = NL")
      case True
      with False have g0: "blank_gap cs = 0" by simp
      then have "NL \<notin> set (takeWhile is_space cs)" by (simp add: blank_gap_0_iff)
      then have "blank_gap (sub_blank_lines cs) = 0"
        by (simp add: blank_gap_0_iff lead_sub_blank_lines)
      then show ?thesis using True g0 2 by simp
    next
      case c: False
      then show ?thesis using 2 by simp
    qed
  qed
qed

lemma settled_fixpoint: "settled y \<Longrightarrow> sub_blank_lines y = y"
proof (induction y)
  case Nil
  then show ?case by simp
next
  case (Cons c cs)
  show ?case
  proof (cases "c = NL \<and> 0 < blank_gap cs")
    case True
    with Cons.prems have g: "blank_gap cs = 1" by simp
    from gap_split [of cs] True g obtain b where
      b: "takeWhile is_space cs = NL # b" "NL \<notin> set b" by auto
    then obtain ds where ds: "cs = NL # ds"
      by (cases cs) (auto split: if_splits)
    with b have "NL \<notin> set (takeWhile is_space ds)" by simp
    then have "blank_gap ds = 0" by (simp add: blank_gap_0_iff)
    then have "sub_blank_lines cs = NL # sub_blank_lines ds" using ds by simp
    moreover have "sub_blank_lines cs = cs" using Cons by simp
    ultimately have "sub_blank_lines ds = ds" using ds by simp
    then show ?thesis using True g ds by simp
  next
    case False
    then show ?thesis using Cons by auto
  qed
qed

lemma settled_append_right: "settled (a @ b) \<Longrightarrow> settled b"
  by (induction a) auto

lemma blank_gap_le_Suc0_iff:
  "blank_gap cs \<le> Suc 0 \<longleftrightarrow> NL \<notin> set (tl (takeWhile is_space cs))"
  using blank_gap_le_1_iff [of cs] by simp

lemma lead_append_subset: "set (takeWhile P a) \<subseteq> set (takeWhile P (a @ b))"
  by (induction a) auto

lemma tl_lead_append: "set (tl (takeWhile is_space a)) \<subseteq> set (tl (takeWhile is_space (a @ b)))"
  using lead_append_subset [of is_space "tl a" b] by (cases a) auto

lemma settled_append_left: "settled (a @ b) \<Longrightarrow> settled a"
proof (induction a)
  case Nil
  then show ?case by simp
next
  case (Cons c a)
  then show ?case
    using tl_lead_append [of a b] by (auto simp add: blank_gap_le_Suc0_iff)
qed

lemma strip_decomp: "\<exists>a b. s = a @ strip s @ b"
proof -
  let ?t = "dropWhile is_space s"
  have "strip s @ rev (takeWhile is_space (rev ?t))
      = rev (takeWhile is_space (rev ?t) @ dropWhile is_space (rev ?t))"
    by (simp only: rev_append strip_def)
  also have "\<dots> = ?t"
    by (simp only: takeWhile_dropWhile_id rev_rev_ident)
  finally have "?t = strip s @ rev (takeWhile is_space (rev ?t))" by simp
  moreover have "s = takeWhile is_space s @ ?t" by simp
  ultimately have "s = takeWhile is_space s @ strip s @ rev (takeWhile is_space (rev ?t))"
    by simp
  then show ?thesis by blast
qed

lemma sublist_strip: "sublist (strip s) s"
  using strip_decomp [of s] by (auto simp add: sublist_def)

lemma settled_strip: "settled s \<Longrightarrow> settled (strip s)"
  using strip_decomp [of s] settled_append_left settled_append_right by metis

lemma lead_dropWhile_SP:
  "set (takeWhile is_space (dropWhile (\<lambda>d. d = SP) cs)) \<subseteq> set (takeWhile is_space cs)"
  by (induction cs) auto

lemma lead_sub_spaces:
  "NL \<notin> set (takeWhile is_space cs) \<Longrightarrow> NL \<notin> set (takeWhile is_space (sub_spaces cs))"
proof (induction cs rule: sub_spaces.induct)
  case 1
  then show ?case by simp
next
  case (2 c cs)
  then show ?case
    using lead_dropWhile_SP [of cs] by (auto split: if_splits)
qed

lemma gap_sub_spaces: "blank_gap cs \<le> 1 \<Longrightarrow> blank_gap (sub_spaces cs) \<le> 1"
proof (cases cs)
  case Nil
  then show ?thesis by (simp add: blank_gap_def)
next
  case (Cons d ds)
  assume "blank_gap cs \<le> 1"
  then show ?thesis
    using lead_sub_spaces [of ds] lead_sub_spaces [of "dropWhile (\<lambda>d. d = SP) ds"]
      lead_dropWhile_SP [of ds]
    unfolding blank_gap_le_1_iff Cons by (auto split: if_splits)
qed

lemma settled_dropWhile: "settled cs \<Longrightarrow> settled (dropWhile P cs)"
  using settled_append_right [of "takeWhile P cs" "dropWhile P cs"] by simp

lemma settled_sub_spaces: "settled r \<Longrightarrow> settled (sub_spaces r)"
proof (induction r rule: sub_spaces.induct)
  case 1
  then show ?case by simp
next
  case (2 c cs)
  show ?case
  proof (cases "c = SP")
    case True
    then show ?thesis using 2 by (simp add: settled_dropWhile)
  next
    case False
    then show ?thesis using 2 gap_sub_spaces [of cs] by auto
  qed
qed

lemma settled_no_triple: "settled y \<Longrightarrow> \<not> sublist [NL, NL, NL] y"
proof (induction y)
  case Nil
  then show ?case by simp
next
  case (Cons c cs)
  then show ?case
    by (auto simp add: sublist_Cons_right blank_gap_le_Suc0_iff prefix_def)
qed

lemma sub_spaces_hd: "c \<noteq> SP \<Longrightarrow> \<not> prefix [SP] (sub_spaces (dropWhile (\<lambda>d. d = SP) cs))"
  by (induction cs) auto

lemma no_double_sub_spaces: "\<not> sublist [SP, SP] (sub_spaces r)"
proof (induction r rule: sub_spaces.induct)
  case 1
  then show ?case by simp
next
  case (2 c cs)
  then show ?case
    using sub_spaces_hd [of 0 cs]
    by (auto simp add: sublist_Cons_right prefix_Cons)
qed

lemma no_double_fixpoint: "\<not> sublist [SP, SP] y \<Longrightarrow> sub_spaces y = y"
proof (induction y)
  case Nil
  then show ?case by simp
next
  case (Cons c cs)
  then show ?case
    by (cases cs) (auto simp add: sublist_Cons_right)
qed

lemma strip_edges:
  "strip s = [] \<or> (\<not> is_space (hd (strip s)) \<and> \<not> is_space (last (strip s)))"
proof (cases "strip s = []")
  case True
  then show ?thesis by simp
next
  case False
  let ?t = "dropWhile is_space s"
  let ?u = "dropWhile is_space (rev ?t)"
  from False have u: "?u \<noteq> []" by (simp add: strip_def)
  then have "\<not> is_space (hd ?u)" by (rule hd_dropWhile)
  then have l: "\<not> is_space (last (strip s))" using u by (simp add: strip_def last_rev)
  have t: "?t \<noteq> []"
  proof
    assume "?t = []"
    then have "?u = []" by (simp only: rev.simps(1) dropWhile.simps(1))
    with u show False by simp
  qed
  then have h: "\<not> is_space (hd ?t)" by (rule hd_dropWhile)
  obtain b where "?t = strip s @ b"
    using takeWhile_dropWhile_id [of is_space "rev ?t"]
    by (metis rev_append rev_rev_ident strip_def)
  then have "hd ?t = hd (strip s)" using False by (cases "strip s") auto
  with h l show ?thesis by simp
qed

lemma strip_fixpoint:
  "y = [] \<or> (\<not> is_space (hd y) \<and> \<not> is_space (last y)) \<Longrightarrow> strip y = y"
proof (cases "y = []")
  case True
  then show ?thesis by (simp add: strip_def)
next
  case False
  assume "y = [] \<or> (\<not> is_space (hd y) \<and> \<not> is_space (last y))"
  with False have e: "\<not> is_space (hd y)" "\<not> is_space (last y)" by simp_all
  have 1: "dropWhile is_space y = y" using False e(1) by (cases y) auto
  have 2: "dropWhile is_space (rev y) = rev y"
    using False e(2) by (cases y rule: rev_cases) auto
  show ?thesis by (simp add: strip_def 1 2)
qed

lemma strip_strip: "strip (strip s) = strip s"
  using strip_edges [of s] by (rule strip_fixpoint)

lemma settled_clean_text: "settled (clean_text x)"
  by (simp add: clean_text_def settled_strip settled_sub_spaces settled_sub_blank_lines)

lemma sublist_clean_text:
  "sublist p (clean_text x) \<Longrightarrow> sublist p (sub_spaces (sub_blank_lines x))"
  unfolding clean_text_def using sublist_strip sublist_order.order_trans by blast


text \<open>
  C5. For every input, the output of \<open>clean_text\<close> contains neither three consecutive
  newlines nor two consecutive spaces.
\<close>

theorem clean_text_no_long_runs:
  "\<not> sublist [NL, NL, NL] (clean_text x) \<and> \<not> sublist [SP, SP] (clean_text x)"
  using settled_no_triple [OF settled_clean_text] sublist_clean_text no_double_sub_spaces
  by blast

text \<open>
  C4. \<open>clean_text\<close> is idempotent: normalizing a normalized text changes nothing.
\<close>

theorem clean_text_idempotent: "clean_text (clean_text x) = clean_text x"
proof -
  let ?y = "clean_text x"
  have "sub_blank_lines ?y = ?y" by (rule settled_fixpoint [OF settled_clean_text])
  moreover have "\<not> sublist [SP, SP] ?y"
    using sublist_clean_text no_double_sub_spaces by blast
  then have "sub_spaces ?y = ?y" by (rule no_double_fixpoint)
  moreover have "strip ?y = ?y" by (simp add: clean_text_def strip_strip)
  ultimately show ?thesis by (simp add: clean_text_def [of "clean_text x"])
qed


lemma blank_gap_le_lead: "blank_gap cs \<le> length (takeWhile is_space cs)"
  unfolding blank_gap_def
  using length_dropWhile_le [of "\<lambda>c. c \<noteq> NL" "rev (takeWhile is_space cs)"] by simp

lemma blank_gap_le_length: "blank_gap cs \<le> length cs"
  using blank_gap_le_lead [of cs] length_takeWhile_le [of is_space cs] by simp

lemma lead_all_space:
  "list_all is_space ds \<Longrightarrow>
   takeWhile is_space (ds @ c # v) = ds @ (if is_space c then c # takeWhile is_space v else [])"
  by (induction ds) auto

lemma lead_not_all_space:
  "\<not> list_all is_space ds \<Longrightarrow> takeWhile is_space (ds @ w) = takeWhile is_space ds"
  by (induction ds) auto

lemma lead_all_space_self: "list_all is_space ds \<Longrightarrow> takeWhile is_space ds = ds"
  by (induction ds) auto

lemma blank_gap_append:
  assumes "c \<noteq> NL" and "\<not> list_all is_space ds \<or> NL \<notin> set (takeWhile is_space v)"
  shows "blank_gap (ds @ c # v) = blank_gap ds"
proof (cases "list_all is_space ds")
  case False
  then show ?thesis by (simp add: blank_gap_def lead_not_all_space)
next
  case True
  with assms have v: "NL \<notin> set (takeWhile is_space v)" by simp
  show ?thesis
    using assms(1) v
    by (simp add: blank_gap_def lead_all_space [OF True] lead_all_space_self [OF True]
        dropWhile_append)
qed

lemma sub_blank_lines_split:
  assumes "c \<noteq> NL"
    and "\<not> (NL \<in> set (takeWhile is_space (rev u)) \<and> NL \<in> set (takeWhile is_space v))"
  shows "sub_blank_lines (u @ c # v) = sub_blank_lines u @ c # sub_blank_lines v"
  using assms(2)
proof (induction u rule: sub_blank_lines.induct)
  case 1
  then show ?case using assms(1) by simp
next
  case (2 d ds)
  have sub1: "set (takeWhile is_space (rev ds)) \<subseteq> set (takeWhile is_space (rev (d # ds)))"
    using lead_append_subset [of is_space "rev ds" "[d]"] by simp
  have "rev ds = rev (drop (blank_gap ds) ds) @ rev (take (blank_gap ds) ds)"
    by (simp add: rev_append [symmetric])
  then have sub2: "set (takeWhile is_space (rev (drop (blank_gap ds) ds)))
      \<subseteq> set (takeWhile is_space (rev ds))"
    using lead_append_subset [of is_space "rev (drop (blank_gap ds) ds)"
        "rev (take (blank_gap ds) ds)"] by simp
  have g: "blank_gap (ds @ c # v) = blank_gap ds" if "d = NL"
  proof (rule blank_gap_append [OF assms(1)])
    show "\<not> list_all is_space ds \<or> NL \<notin> set (takeWhile is_space v)"
    proof (cases "list_all is_space ds")
      case True
      then have "takeWhile is_space (rev (d # ds)) = rev ds @ [NL]"
        using that lead_all_space_self [of "rev ds @ [NL]"] by simp
      then show ?thesis using "2.prems" by simp
    next
      case False
      then show ?thesis by simp
    qed
  qed
  show ?case
  proof (cases "d = NL \<and> 0 < blank_gap ds")
    case True
    then have "sub_blank_lines (drop (blank_gap ds) ds @ c # v)
        = sub_blank_lines (drop (blank_gap ds) ds) @ c # sub_blank_lines v"
      using "2.IH"(1) "2.prems" sub1 sub2 by blast
    then show ?thesis
      using True g blank_gap_le_length [of ds] by simp
  next
    case False
    then have "sub_blank_lines (ds @ c # v) = sub_blank_lines ds @ c # sub_blank_lines v"
      using "2.IH"(2) "2.prems" sub1 by blast
    then show ?thesis
      using False g by auto
  qed
qed

lemma sub_spaces_split:
  "c \<noteq> SP \<Longrightarrow> sub_spaces (u @ c # v) = sub_spaces u @ c # sub_spaces v"
proof (induction u rule: sub_spaces.induct)
  case 1
  then show ?case by simp
next
  case (2 d ds)
  have "dropWhile (\<lambda>d. d = SP) (ds @ c # v) = dropWhile (\<lambda>d. d = SP) ds @ c # v"
    using 2(3) by (induction ds) auto
  then show ?case using 2 by simp
qed

lemma strip_split:
  assumes "\<exists>x\<in>set l. \<not> is_space x" and "\<exists>x\<in>set r. \<not> is_space x"
  shows "strip (l @ c # r) = dropWhile is_space l @ c # rev (dropWhile is_space (rev r))"
proof -
  have 1: "dropWhile is_space (l @ c # r) = dropWhile is_space l @ c # r"
    using assms(1) by (auto simp add: dropWhile_append1)
  have "\<exists>x\<in>set (rev r). \<not> is_space x" using assms(2) by simp
  then have "dropWhile is_space (rev r @ c # rev (dropWhile is_space l))
      = dropWhile is_space (rev r) @ c # rev (dropWhile is_space l)"
    by (auto simp add: dropWhile_append1)
  then show ?thesis by (simp add: strip_def 1)
qed

lemma take_gap_spaces: "list_all is_space (take (blank_gap cs) cs)"
proof -
  have "take (blank_gap cs) cs = take (blank_gap cs) (takeWhile is_space cs)"
    using take_append [of "blank_gap cs" "takeWhile is_space cs" "dropWhile is_space cs"]
      blank_gap_le_lead [of cs] by simp
  then have "set (take (blank_gap cs) cs) \<subseteq> set (takeWhile is_space cs)"
    using set_take_subset [of "blank_gap cs" "takeWhile is_space cs"] by simp
  then show ?thesis
    by (auto simp add: list_all_iff dest: set_takeWhileD)
qed

lemma filter_sub_blank_lines:
  "filter (\<lambda>x. \<not> is_space x) (sub_blank_lines s) = filter (\<lambda>x. \<not> is_space x) s"
proof (induction s rule: sub_blank_lines.induct)
  case 1
  then show ?case by simp
next
  case (2 c cs)
  have "filter (\<lambda>x. \<not> is_space x) (take (blank_gap cs) cs) = []"
    using take_gap_spaces [of cs] by (simp add: list_all_iff)
  then have "filter (\<lambda>x. \<not> is_space x) (drop (blank_gap cs) cs) = filter (\<lambda>x. \<not> is_space x) cs"
    using filter_append [of "\<lambda>x. \<not> is_space x" "take (blank_gap cs) cs" "drop (blank_gap cs) cs"]
    by simp
  then show ?case using 2 by auto
qed

lemma filter_sub_spaces:
  "filter (\<lambda>x. \<not> is_space x) (sub_spaces s) = filter (\<lambda>x. \<not> is_space x) s"
proof (induction s rule: sub_spaces.induct)
  case 1
  then show ?case by simp
next
  case (2 c cs)
  have "filter (\<lambda>x. \<not> is_space x) (dropWhile (\<lambda>d. d = SP) cs) = filter (\<lambda>x. \<not> is_space x) cs"
    by (induction cs) auto
  then show ?case using 2 by auto
qed

lemma nonspace_kept:
  "(\<exists>x\<in>set (sub_spaces (sub_blank_lines s)). \<not> is_space x) \<longleftrightarrow> (\<exists>x\<in>set s. \<not> is_space x)"
proof -
  have "filter (\<lambda>x. \<not> is_space x) (sub_spaces (sub_blank_lines s)) = filter (\<lambda>x. \<not> is_space x) s"
    by (simp add: filter_sub_spaces filter_sub_blank_lines)
  then have "set (filter (\<lambda>x. \<not> is_space x) (sub_spaces (sub_blank_lines s)))
      = set (filter (\<lambda>x. \<not> is_space x) s)" by simp
  then show ?thesis by auto
qed


text \<open>
  C2, as the code has it. The class \<^verbatim>\<open>\s\<close> of the first pattern and \<^verbatim>\<open>strip()\<close> take every
  kind of whitespace, so a tab between two newlines that only whitespace separates is
  removed with the blank lines, and a tab in the leading or trailing whitespace of the
  text is trimmed: in both texts below the input has a tab and the output has none.
\<close>

theorem clean_text_removes_tabs:
  "is_space TAB \<and> TAB \<in> set [97, NL, TAB, NL, 98]
   \<and> clean_text [97, NL, TAB, NL, 98] = [97, NL, NL, 98]
   \<and> TAB \<notin> set (clean_text [97, NL, TAB, NL, 98])
   \<and> TAB \<in> set [TAB, 97, 98, TAB]
   \<and> clean_text [TAB, 97, 98, TAB] = [97, 98]
   \<and> TAB \<notin> set (clean_text [TAB, 97, 98, TAB])"
  by (simp add: clean_text_def strip_def blank_gap_def is_space_def)

text \<open>
  C2, amended. A character \<open>c\<close> other than space and newline (a tab, or any other kind
  of whitespace) stays where it is when it is neither in the leading or trailing
  whitespace of the text (a character that is not whitespace stands before it and one
  after it) nor between two newlines of one whitespace run (the whitespace just before
  it or the whitespace just after it has no newline): the output is the normalized text
  before \<open>c\<close>, then \<open>c\<close>, then the normalized text after \<open>c\<close>.
\<close>

theorem clean_text_keeps_inner_char:
  assumes "c \<noteq> SP" and "c \<noteq> NL"
    and "list_ex (\<lambda>x. \<not> is_space x) u" and "list_ex (\<lambda>x. \<not> is_space x) v"
    and "\<not> (NL \<in> set (takeWhile is_space (rev u)) \<and> NL \<in> set (takeWhile is_space v))"
  shows "clean_text (u @ c # v)
     = dropWhile is_space (sub_spaces (sub_blank_lines u)) @ c
       # rev (dropWhile is_space (rev (sub_spaces (sub_blank_lines v))))"
proof -
  have "sub_spaces (sub_blank_lines (u @ c # v))
      = sub_spaces (sub_blank_lines u) @ c # sub_spaces (sub_blank_lines v)"
    using assms(1,2,5) by (simp add: sub_blank_lines_split sub_spaces_split)
  moreover have "\<exists>x\<in>set (sub_spaces (sub_blank_lines u)). \<not> is_space x"
    "\<exists>x\<in>set (sub_spaces (sub_blank_lines v)). \<not> is_space x"
    using assms(3,4) by (simp_all add: nonspace_kept list_ex_iff)
  ultimately show ?thesis by (simp add: clean_text_def strip_split)
qed

theorem clean_text_keeps_inner_char_witness:
  "TAB \<noteq> SP \<and> TAB \<noteq> NL \<and> is_space TAB
   \<and> list_ex (\<lambda>x. \<not> is_space x) [97, NL, SP, NL, SP, SP]
   \<and> list_ex (\<lambda>x. \<not> is_space x) [SP, SP, 98, TAB]
   \<and> \<not> (NL \<in> set (takeWhile is_space (rev [97, NL, SP, NL, SP, SP]))
         \<and> NL \<in> set (takeWhile is_space [SP, SP, 98, TAB]))
   \<and> clean_text ([97, NL, SP, NL, SP, SP] @ TAB # [SP, SP, 98, TAB])
       = [97, NL, NL, SP, TAB, SP, 98]"
  using clean_text_keeps_inner_char [of TAB "[97, NL, SP, NL, SP, SP]" "[SP, SP, 98, TAB]"]
  by (simp add: blank_gap_def is_space_def)

end
